theory Spec2Isabelle
  imports Main "HOL-Library.Multiset"
begin

section \<open>The IQR session engine (\<^verbatim>\<open>smqtk_iqr/iqr/iqr_session.py\<close>)\<close>

text \<open>
  The class \<^verbatim>\<open>IqrSession\<close> becomes a record of its attributes and every method a
  function from the session before the call to the session after it, together with
  what the method returns or raises. The session is single-threaded here: the
  attribute \<^verbatim>\<open>lock\<close> and the \<^verbatim>\<open>with self.lock\<close> blocks have no counterpart.
\<close>

subsection \<open>Collaborator types\<close>

text \<open>
  Modelled from the spec: \<^verbatim>\<open>DescriptorElement\<close> is a class of the package
  \<^verbatim>\<open>smqtk_descriptors\<close>; the spec has it identified by a stable key and carrying
  a vector. The session uses its key (\<^verbatim>\<open>uuid()\<close>), its vector (\<^verbatim>\<open>vector()\<close>,
  \<^verbatim>\<open>None\<close> when \<^verbatim>\<open>has_vector()\<close> is false) and \<^verbatim>\<open>set_vector\<close>. An
  element is the pair of the two, and two elements are the same member of a Python set
  or the same key of a dict when they are equal as such pairs. Where a key has one
  element only, as the spec assumes, this is equality by key. The components of a
  vector are values of a type \<open>'v\<close>, compared by equality.
\<close>

record ('k, 'v) descriptor =
  uuid :: 'k
  vector :: "'v list option"

text \<open>Every exception that a method of the session raises in the modelled paths.\<close>

datatype error =
    NoPositiveDescriptors   \<comment> \<open>\<^verbatim>\<open>RuntimeError\<close> of \<^verbatim>\<open>update_working_set\<close>\<close>
  | NoPositiveAdjudication  \<comment> \<open>\<^verbatim>\<open>RuntimeError\<close> of \<^verbatim>\<open>refine\<close>\<close>
  | UnpackValueError        \<comment> \<open>\<^verbatim>\<open>ValueError\<close>: \<^verbatim>\<open>zip(*[])\<close> unpacked into two names\<close>
  | MissingKeyError         \<comment> \<open>\<^verbatim>\<open>KeyError\<close> of \<^verbatim>\<open>get_many_descriptors\<close>\<close>
  | NoVectorError           \<comment> \<open>\<^verbatim>\<open>AttributeError\<close>: \<^verbatim>\<open>None.tolist()\<close>\<close>
  | InvalidBytesError       \<comment> \<open>\<^verbatim>\<open>ValueError\<close> of \<^verbatim>\<open>set_state_bytes\<close>\<close>
  | VectorMismatchError     \<comment> \<open>\<^verbatim>\<open>AssertionError\<close> of \<^verbatim>\<open>load_descriptor\<close>\<close>

subsection \<open>Python sets and dicts\<close>

text \<open>
  A Python \<^verbatim>\<open>set\<close> is held as the list of its members in the order in which a
  loop over it visits them; membership is \<open>x \<in> set xs\<close>. The operations below keep a
  list free of duplicates when it was so before.
\<close>

definition set_of_iterable :: "'a list \<Rightarrow> 'a list" where
  "set_of_iterable xs = remdups xs"

definition set_add :: "'a list \<Rightarrow> 'a \<Rightarrow> 'a list" where
  "set_add S x = (if x \<in> set S then S else S @ [x])"

definition set_update :: "'a list \<Rightarrow> 'a list \<Rightarrow> 'a list" where
  "set_update S T = foldl set_add S T"

definition set_difference_update :: "'a list \<Rightarrow> 'a list \<Rightarrow> 'a list" where
  "set_difference_update S T = filter (\<lambda>x. x \<notin> set T) S"

definition set_union :: "'a list \<Rightarrow> 'a list \<Rightarrow> 'a list" where
  "set_union S T = set_update (set_of_iterable S) T"

text \<open>
  A Python \<^verbatim>\<open>dict\<close> is the list of its items in insertion order. Assigning to a
  key that is present replaces the value where the key stands; a new key goes to the
  end.
\<close>

fun dict_set :: "('a \<times> 'b) list \<Rightarrow> 'a \<Rightarrow> 'b \<Rightarrow> ('a \<times> 'b) list" where
  "dict_set [] k v = [(k, v)]"
| "dict_set ((k', v') # m) k v =
     (if k' = k then (k', v) # m else (k', v') # dict_set m k v)"

definition dict_of_pairs :: "('a \<times> 'b) list \<Rightarrow> ('a \<times> 'b) list" where
  "dict_of_pairs ps = foldl (\<lambda>m (k, v). dict_set m k v) [] ps"

text \<open>
  \<^verbatim>\<open>sorted(items, key=..., reverse=True)\<close>: Python reverses the list, sorts it
  stably in ascending order and reverses the result, so that items with equal keys
  keep the order they had in \<^verbatim>\<open>items\<close>.
\<close>

definition sorted_reverse :: "('a \<Rightarrow> 'b::linorder) \<Rightarrow> 'a list \<Rightarrow> 'a list" where
  "sorted_reverse f xs = rev (sort_key f (rev xs))"

subsection \<open>The working set\<close>

text \<open>
  Modelled from the spec: \<^verbatim>\<open>MemoryDescriptorSet\<close> is a class of the package
  \<^verbatim>\<open>smqtk_descriptors\<close>; the spec has it as a mapping from descriptor key to
  descriptor with an insert keyed by the descriptor key. It is a dict from
  \<^verbatim>\<open>uuid()\<close> to the element, and \<^verbatim>\<open>get_many_descriptors\<close> raises
  \<^verbatim>\<open>KeyError\<close> at a key that is absent.
\<close>

type_synonym ('k, 'v) descriptor_set = "('k \<times> ('k, 'v) descriptor) list"

definition add_many_descriptors ::
  "('k, 'v) descriptor_set \<Rightarrow> ('k, 'v) descriptor list \<Rightarrow> ('k, 'v) descriptor_set" where
  "add_many_descriptors ws ds = foldl (\<lambda>m d. dict_set m (uuid d) d) ws ds"

definition iterdescriptors :: "('k, 'v) descriptor_set \<Rightarrow> ('k, 'v) descriptor list" where
  "iterdescriptors ws = map snd ws"

fun get_many_descriptors ::
  "('k, 'v) descriptor_set \<Rightarrow> 'k list \<Rightarrow> ('k, 'v) descriptor list option" where
  "get_many_descriptors ws [] = Some []"
| "get_many_descriptors ws (u # us) =
     (case map_of ws u of
        None \<Rightarrow> None
      | Some d \<Rightarrow> (case get_many_descriptors ws us of
                    None \<Rightarrow> None
                  | Some ds \<Rightarrow> Some (d # ds)))"

subsection \<open>The session\<close>

text \<open>
  The ranking capability \<^verbatim>\<open>rank_with_feedback(pos, neg, pool, pool_uids)\<close> returns
  the scores of the pool and the keys it recommends for feedback; the neighbour index
  \<^verbatim>\<open>nn(p, n)[0]\<close> returns the neighbours of \<open>p\<close>. Both are functions given to
  the session by its caller.
\<close>

type_synonym ('k, 'v, 's) rank_relevancy =
  "'v list option list \<Rightarrow> 'v list option list \<Rightarrow> 'v list option list \<Rightarrow> 'k list
     \<Rightarrow> 's list \<times> 'k list"

type_synonym ('k, 'v) nn_index = "('k, 'v) descriptor \<Rightarrow> int \<Rightarrow> ('k, 'v) descriptor list"

type_synonym ('k, 'v, 's) ranking = "(('k, 'v) descriptor \<times> 's) list"

record ('k, 'v, 's) session =
  session_uid :: string
  pos_seed_neighbors :: int
  working_set :: "('k, 'v) descriptor_set"
  wi_seeds_used :: "'k list"
  external_positive_descriptors :: "('k, 'v) descriptor list"
  external_negative_descriptors :: "('k, 'v) descriptor list"
  positive_descriptors :: "('k, 'v) descriptor list"
  negative_descriptors :: "('k, 'v) descriptor list"
  rank_contrib_pos :: "('k, 'v) descriptor list"
  rank_contrib_pos_ext :: "('k, 'v) descriptor list"
  rank_contrib_neg :: "('k, 'v) descriptor list"
  rank_contrib_neg_ext :: "('k, 'v) descriptor list"
  results :: "('k, 'v, 's) ranking option"
  feedback_list :: "('k, 'v) descriptor list option"
  cached_ordered_results :: "('k, 'v, 's) ranking option"
  cached_ordered_pos :: "('k, 'v, 's) ranking option"
  cached_ordered_neg :: "('k, 'v, 's) ranking option"
  cached_ordered_non_adj :: "('k, 'v, 's) ranking option"
  rank_relevancy_with_feedback :: "('k, 'v, 's) rank_relevancy"

text \<open>\<^verbatim>\<open>__init__\<close>, with the session identifier already chosen.\<close>

definition new_session ::
  "('k, 'v, 's) rank_relevancy \<Rightarrow> int \<Rightarrow> string \<Rightarrow> ('k, 'v, 's) session" where
  "new_session rank n uid =
     \<lparr> session_uid = uid,
       pos_seed_neighbors = n,
       working_set = [],
       wi_seeds_used = [],
       external_positive_descriptors = [],
       external_negative_descriptors = [],
       positive_descriptors = [],
       negative_descriptors = [],
       rank_contrib_pos = [],
       rank_contrib_pos_ext = [],
       rank_contrib_neg = [],
       rank_contrib_neg_ext = [],
       results = None,
       feedback_list = None,
       cached_ordered_results = None,
       cached_ordered_pos = None,
       cached_ordered_neg = None,
       cached_ordered_non_adj = None,
       rank_relevancy_with_feedback = rank \<rparr>"

definition external_descriptors ::
  "('k, 'v) descriptor list \<Rightarrow> ('k, 'v) descriptor list
     \<Rightarrow> ('k, 'v, 's) session \<Rightarrow> ('k, 'v, 's) session" where
  "external_descriptors positive negative s =
     (let positive = set_of_iterable positive;
          negative = set_of_iterable negative
      in s\<lparr> external_positive_descriptors :=
               set_difference_update
                 (set_update (external_positive_descriptors s) positive) negative,
             external_negative_descriptors :=
               set_difference_update
                 (set_update (external_negative_descriptors s) negative) positive \<rparr>)"

definition adjudicate ::
  "('k, 'v) descriptor list \<Rightarrow> ('k, 'v) descriptor list
     \<Rightarrow> ('k, 'v) descriptor list \<Rightarrow> ('k, 'v) descriptor list
     \<Rightarrow> ('k, 'v, 's) session \<Rightarrow> ('k, 'v, 's) session" where
  "adjudicate new_positives new_negatives un_positives un_negatives s =
     (let new_positives = set_of_iterable new_positives;
          new_negatives = set_of_iterable new_negatives;
          un_positives = set_of_iterable un_positives;
          un_negatives = set_of_iterable un_negatives;
          pos_before = positive_descriptors s;
          pos_after =
            set_difference_update
              (set_difference_update (set_update pos_before new_positives) un_positives)
              new_negatives;
          pos_changed = (set pos_before \<noteq> set pos_after);
          neg_before = negative_descriptors s;
          neg_after =
            set_difference_update
              (set_difference_update (set_update neg_before new_negatives) un_negatives)
              new_positives;
          neg_changed = (set neg_before \<noteq> set neg_after)
      in s\<lparr> positive_descriptors := pos_after,
             negative_descriptors := neg_after,
             cached_ordered_pos :=
               (if pos_changed then None else cached_ordered_pos s),
             cached_ordered_neg :=
               (if neg_changed then None else cached_ordered_neg s),
             cached_ordered_non_adj :=
               (if pos_changed \<or> neg_changed then None else cached_ordered_non_adj s) \<rparr>)"

text \<open>
  The body of the loop of \<^verbatim>\<open>update_working_set\<close> for one positive example
  \<open>p\<close>, and the method itself.
\<close>

definition update_working_set_body ::
  "('k, 'v) nn_index \<Rightarrow> ('k, 'v, 's) session \<Rightarrow> ('k, 'v) descriptor
     \<Rightarrow> ('k, 'v, 's) session" where
  "update_working_set_body nn_index s p =
     (if uuid p \<notin> set (wi_seeds_used s)
      then s\<lparr> working_set :=
               add_many_descriptors (working_set s) (nn_index p (pos_seed_neighbors s)),
             wi_seeds_used := set_add (wi_seeds_used s) (uuid p) \<rparr>
      else s)"

definition update_working_set ::
  "('k, 'v) nn_index \<Rightarrow> ('k, 'v, 's) session \<Rightarrow> error option \<times> ('k, 'v, 's) session" where
  "update_working_set nn_index s =
     (let pos_examples =
            set_union (external_positive_descriptors s) (positive_descriptors s)
      in if length pos_examples = 0 then (Some NoPositiveDescriptors, s)
         else (None, foldl (update_working_set_body nn_index) s pos_examples))"

definition refine :: "('k, 'v, 's) session \<Rightarrow> error option \<times> ('k, 'v, 's) session" where
  "refine s =
     (let pos = map vector
                  (set_union (positive_descriptors s) (external_positive_descriptors s));
          neg = map vector
                  (set_union (negative_descriptors s) (external_negative_descriptors s))
      in if pos = [] then (Some NoPositiveAdjudication, s)
         else if working_set s = [] then (Some UnpackValueError, s)
         else
           (let pool_uids = map fst (working_set s);
                pool_de = map snd (working_set s);
                pool = map vector pool_de;
                (probabilities, feedback_uuids) =
                   rank_relevancy_with_feedback s pos neg pool pool_uids;
                s1 = s\<lparr> results :=
                          Some (dict_of_pairs
                                  (zip (iterdescriptors (working_set s)) probabilities)) \<rparr>
            in case get_many_descriptors (working_set s) feedback_uuids of
                 None \<Rightarrow> (Some MissingKeyError, s1)
               | Some fb \<Rightarrow>
                   (None,
                    s1\<lparr> feedback_list := Some fb,
                        rank_contrib_pos := positive_descriptors s,
                        rank_contrib_pos_ext := external_positive_descriptors s,
                        rank_contrib_neg := negative_descriptors s,
                        rank_contrib_neg_ext := external_negative_descriptors s,
                        cached_ordered_results := None,
                        cached_ordered_pos := None,
                        cached_ordered_neg := None,
                        cached_ordered_non_adj := None \<rparr>)))"

text \<open>
  The view accessors return a list and may fill a cache, so they return the list and
  the session after the call.
\<close>

definition ordered_results ::
  "('k, 'v, 's::linorder) session \<Rightarrow> ('k, 'v, 's) ranking \<times> ('k, 'v, 's) session" where
  "ordered_results s =
     (case cached_ordered_results s of
        Some r \<Rightarrow> (r, s)
      | None \<Rightarrow>
          (case results s of
             None \<Rightarrow> ([], s)
           | Some result_items \<Rightarrow>
               (let r = sorted_reverse snd result_items
                in (r, s\<lparr> cached_ordered_results := Some r \<rparr>))))"

definition feedback_results ::
  "('k, 'v, 's) session \<Rightarrow> ('k, 'v) descriptor list" where
  "feedback_results s = (case feedback_list s of Some fb \<Rightarrow> fb | None \<Rightarrow> [])"

definition get_positive_adjudication_relevancy ::
  "('k, 'v, 's::linorder) session \<Rightarrow> ('k, 'v, 's) ranking \<times> ('k, 'v, 's) session" where
  "get_positive_adjudication_relevancy s =
     (case cached_ordered_pos s of
        Some r \<Rightarrow> (r, s)
      | None \<Rightarrow>
          (let contrib = set_union (rank_contrib_pos s) (rank_contrib_pos_ext s);
               (rows, s1) = ordered_results s;
               r = filter (\<lambda>t. fst t \<in> set contrib) rows
           in (r, s1\<lparr> cached_ordered_pos := Some r \<rparr>)))"

definition get_negative_adjudication_relevancy ::
  "('k, 'v, 's::linorder) session \<Rightarrow> ('k, 'v, 's) ranking \<times> ('k, 'v, 's) session" where
  "get_negative_adjudication_relevancy s =
     (case cached_ordered_neg s of
        Some r \<Rightarrow> (r, s)
      | None \<Rightarrow>
          (let contrib = set_union (rank_contrib_neg s) (rank_contrib_neg_ext s);
               (rows, s1) = ordered_results s;
               r = filter (\<lambda>t. fst t \<in> set contrib) rows
           in (r, s1\<lparr> cached_ordered_neg := Some r \<rparr>)))"

definition get_unadjudicated_relevancy ::
  "('k, 'v, 's::linorder) session \<Rightarrow> ('k, 'v, 's) ranking \<times> ('k, 'v, 's) session" where
  "get_unadjudicated_relevancy s =
     (case cached_ordered_non_adj s of
        Some r \<Rightarrow> (r, s)
      | None \<Rightarrow>
          (let pos_and_neg =
                 set_union
                   (set_union
                      (set_union (rank_contrib_pos s) (rank_contrib_pos_ext s))
                      (rank_contrib_neg s))
                   (rank_contrib_neg_ext s);
               (rows, s1) = ordered_results s;
               r = filter (\<lambda>t. fst t \<notin> set pos_and_neg) rows
           in (r, s1\<lparr> cached_ordered_non_adj := Some r \<rparr>)))"

definition reset :: "('k, 'v, 's) session \<Rightarrow> ('k, 'v, 's) session" where
  "reset s =
     s\<lparr> working_set := [],
        wi_seeds_used := [],
        positive_descriptors := [],
        negative_descriptors := [],
        external_positive_descriptors := [],
        external_negative_descriptors := [],
        rank_contrib_pos := [],
        rank_contrib_pos_ext := [],
        rank_contrib_neg := [],
        rank_contrib_neg_ext := [],
        results := None,
        feedback_list := None,
        cached_ordered_results := None,
        cached_ordered_pos := None,
        cached_ordered_neg := None,
        cached_ordered_non_adj := None \<rparr>"

subsection \<open>The state codec\<close>

text \<open>
  \<^verbatim>\<open>get_state_bytes\<close> writes one JSON document into a zip archive under the name
  \<^verbatim>\<open>STATE_ZIP_FILENAME\<close> and \<^verbatim>\<open>set_state_bytes\<close> reads it back. The archive is
  the list of its entries, each a name and the document stored under it; the document
  is the dict given to \<^verbatim>\<open>json.dumps\<close>, with the keys \<^verbatim>\<open>pos\<close>, \<^verbatim>\<open>neg\<close>,
  \<^verbatim>\<open>external_pos\<close> and \<^verbatim>\<open>external_neg\<close>. Compression, the JSON text and the
  bytes of a number are the work of \<^verbatim>\<open>zipfile\<close> and \<^verbatim>\<open>json\<close> and are not
  modelled: reading returns the document that was written.
\<close>

record ('k, 'v) iqr_state =
  state_pos :: "('k \<times> 'v list) list"
  state_neg :: "('k \<times> 'v list) list"
  state_external_pos :: "('k \<times> 'v list) list"
  state_external_neg :: "('k \<times> 'v list) list"

type_synonym ('k, 'v) state_bytes = "(string \<times> ('k, 'v) iqr_state) list"

definition STATE_ZIP_FILENAME :: string where
  "STATE_ZIP_FILENAME = ''iqr_state.json''"

fun d_set_to_list :: "('k, 'v) descriptor list \<Rightarrow> error + ('k \<times> 'v list) list" where
  "d_set_to_list [] = Inr []"
| "d_set_to_list (d # ds) =
     (case vector d of
        None \<Rightarrow> Inl NoVectorError
      | Some v \<Rightarrow> (case d_set_to_list ds of
                    Inl e \<Rightarrow> Inl e
                  | Inr r \<Rightarrow> Inr ((uuid d, v) # r)))"

definition get_state_bytes :: "('k, 'v, 's) session \<Rightarrow> error + ('k, 'v) state_bytes" where
  "get_state_bytes s =
     (case d_set_to_list (positive_descriptors s) of
        Inl e \<Rightarrow> Inl e
      | Inr pos_d \<Rightarrow>
     (case d_set_to_list (negative_descriptors s) of
        Inl e \<Rightarrow> Inl e
      | Inr neg_d \<Rightarrow>
     (case d_set_to_list (external_positive_descriptors s) of
        Inl e \<Rightarrow> Inl e
      | Inr ext_pos_d \<Rightarrow>
     (case d_set_to_list (external_negative_descriptors s) of
        Inl e \<Rightarrow> Inl e
      | Inr ext_neg_d \<Rightarrow>
          Inr [(STATE_ZIP_FILENAME,
                \<lparr> state_pos = pos_d, state_neg = neg_d,
                  state_external_pos = ext_pos_d,
                  state_external_neg = ext_neg_d \<rparr>)]))))"

text \<open>
  The descriptor factory \<^verbatim>\<open>new_descriptor(uid)\<close> is a function of the caller from
  a key to an element, which may already carry a vector.
\<close>

type_synonym ('k, 'v) descriptor_factory = "'k \<Rightarrow> ('k, 'v) descriptor"

definition load_descriptor ::
  "('k, 'v) descriptor_factory \<Rightarrow> 'k \<Rightarrow> 'v list \<Rightarrow> error + ('k, 'v) descriptor" where
  "load_descriptor descriptor_factory uid vec_list =
     (let e = descriptor_factory uid
      in case vector e of
           Some v \<Rightarrow> (if v = vec_list then Inr e else Inl VectorMismatchError)
         | None \<Rightarrow> Inr (e\<lparr> vector := Some vec_list \<rparr>))"

text \<open>
  The inner loop of \<^verbatim>\<open>set_state_bytes\<close> over one source list, adding to one
  target set; it stops at the first failed assertion with what it has added so far.
\<close>

fun load_source ::
  "('k, 'v) descriptor_factory \<Rightarrow> ('k \<times> 'v list) list \<Rightarrow> ('k, 'v) descriptor list
     \<Rightarrow> error option \<times> ('k, 'v) descriptor list" where
  "load_source f [] target = (None, target)"
| "load_source f ((uid, vector_list) # source) target =
     (case load_descriptor f uid vector_list of
        Inl e \<Rightarrow> (Some e, target)
      | Inr d \<Rightarrow> load_source f source (set_add target d))"

definition set_state_bytes ::
  "('k, 'v) state_bytes \<Rightarrow> ('k, 'v) descriptor_factory \<Rightarrow> ('k, 'v, 's) session
     \<Rightarrow> error option \<times> ('k, 'v, 's) session" where
  "set_state_bytes b descriptor_factory s =
     (case map_of b STATE_ZIP_FILENAME of
        None \<Rightarrow> (Some InvalidBytesError, s)
      | Some state \<Rightarrow>
          (let s0 = reset s;
               (e1, ext_pos) = load_source descriptor_factory (state_external_pos state)
                                 (external_positive_descriptors s0);
               s1 = s0\<lparr> external_positive_descriptors := ext_pos \<rparr>
           in if e1 \<noteq> None then (e1, s1) else
          (let (e2, ext_neg) = load_source descriptor_factory (state_external_neg state)
                                 (external_negative_descriptors s1);
               s2 = s1\<lparr> external_negative_descriptors := ext_neg \<rparr>
           in if e2 \<noteq> None then (e2, s2) else
          (let (e3, pos) = load_source descriptor_factory (state_pos state)
                             (positive_descriptors s2);
               s3 = s2\<lparr> positive_descriptors := pos \<rparr>
           in if e3 \<noteq> None then (e3, s3) else
          (let (e4, neg) = load_source descriptor_factory (state_neg state)
                             (negative_descriptors s3);
               s4 = s3\<lparr> negative_descriptors := neg \<rparr>
           in (e4, s4))))))"

subsection \<open>Sequences of calls\<close>

text \<open>The two operations of the adjudication store, as values, and a run of them.\<close>

datatype ('k, 'v) store_call =
    Adjudicate "('k, 'v) descriptor list" "('k, 'v) descriptor list"
               "('k, 'v) descriptor list" "('k, 'v) descriptor list"
  | SetExternal "('k, 'v) descriptor list" "('k, 'v) descriptor list"

fun store_step :: "('k, 'v, 's) session \<Rightarrow> ('k, 'v) store_call \<Rightarrow> ('k, 'v, 's) session" where
  "store_step s (Adjudicate np nn up un) = adjudicate np nn up un s"
| "store_step s (SetExternal p n) = external_descriptors p n s"

definition store_run ::
  "('k, 'v, 's) session \<Rightarrow> ('k, 'v) store_call list \<Rightarrow> ('k, 'v, 's) session" where
  "store_run s cs = foldl store_step s cs"

text \<open>
  Every public operation as a value. A step gives the session after the call, whether
  the call returned or raised.
\<close>

datatype ('k, 'v) call =
    Store "('k, 'v) store_call"
  | Grow "('k, 'v) nn_index"
  | Refine
  | Reset
  | Import "('k, 'v) state_bytes" "('k, 'v) descriptor_factory"
  | Export
  | OrderedResults
  | OrderedPositive
  | OrderedNegative
  | OrderedUnadjudicated
  | FeedbackResults

fun step :: "('k, 'v, 's::linorder) session \<Rightarrow> ('k, 'v) call \<Rightarrow> ('k, 'v, 's) session" where
  "step s (Store c) = store_step s c"
| "step s (Grow nn_index) = snd (update_working_set nn_index s)"
| "step s Refine = snd (refine s)"
| "step s Reset = reset s"
| "step s (Import b f) = snd (set_state_bytes b f s)"
| "step s Export = s"
| "step s OrderedResults = snd (ordered_results s)"
| "step s OrderedPositive = snd (get_positive_adjudication_relevancy s)"
| "step s OrderedNegative = snd (get_negative_adjudication_relevancy s)"
| "step s OrderedUnadjudicated = snd (get_unadjudicated_relevancy s)"
| "step s FeedbackResults = s"

definition run :: "('k, 'v, 's::linorder) session \<Rightarrow> ('k, 'v) call list \<Rightarrow> ('k, 'v, 's) session" where
  "run s cs = foldl step s cs"

text \<open>
  The calls that invalidate the view of all results: \<^verbatim>\<open>refine\<close>, \<^verbatim>\<open>reset\<close>
  and the import, which resets.
\<close>

fun invalidating :: "('k, 'v) call \<Rightarrow> bool" where
  "invalidating Refine = True"
| "invalidating Reset = True"
| "invalidating (Import b f) = True"
| "invalidating c = False"

subsection \<open>Predicates of the statements\<close>

text \<open>The two disjointness invariants of the store, as one predicate on sessions.\<close>

definition adjudications_disjoint :: "('k, 'v, 's) session \<Rightarrow> bool" where
  "adjudications_disjoint s \<longleftrightarrow>
     set (positive_descriptors s) \<inter> set (negative_descriptors s) = {} \<and>
     set (external_positive_descriptors s) \<inter> set (external_negative_descriptors s) = {}"

text \<open>The calls that empty the working set: \<^verbatim>\<open>reset\<close>, and the import, which resets.\<close>

fun clears_working_set :: "('k, 'v) call \<Rightarrow> bool" where
  "clears_working_set Reset = True"
| "clears_working_set (Import b f) = True"
| "clears_working_set c = False"



text \<open>
  A session has settled on the rows \<open>rows\<close> when they are cached, or when there is
  neither a cache nor a result and the rows are empty.
\<close>

definition settled_on :: "('k, 'v, 's) ranking \<Rightarrow> ('k, 'v, 's) session \<Rightarrow> bool" where
  "settled_on rows s \<longleftrightarrow>
     cached_ordered_results s = Some rows \<or>
     (cached_ordered_results s = None \<and> results s = None \<and> rows = [])"

text \<open>
  The rows that \<^verbatim>\<open>get_positive_adjudication_relevancy\<close> computes when its cache is
  empty, and the coherence of that cache: it is empty or holds these rows.
\<close>

definition positive_rows :: "('k, 'v, 's::linorder) session \<Rightarrow> ('k, 'v, 's) ranking" where
  "positive_rows s =
     filter (\<lambda>t. fst t \<in> set (set_union (rank_contrib_pos s) (rank_contrib_pos_ext s)))
       (fst (ordered_results s))"

definition positive_cache_coherent :: "('k, 'v, 's::linorder) session \<Rightarrow> bool" where
  "positive_cache_coherent s \<longleftrightarrow>
     cached_ordered_pos s = None \<or> cached_ordered_pos s = Some (positive_rows s)"

text \<open>
  The descriptors of the four adjudication sets of a session, and what it is for a
  descriptor factory to reproduce a descriptor: the element it makes for the key of
  the descriptor has that key and either no vector yet or the vector of the descriptor.
\<close>

definition adjudicated_descriptors :: "('k, 'v, 's) session \<Rightarrow> ('k, 'v) descriptor list" where
  "adjudicated_descriptors s =
     positive_descriptors s @ negative_descriptors s @
     external_positive_descriptors s @ external_negative_descriptors s"

definition reproduces :: "('k, 'v) descriptor_factory \<Rightarrow> ('k, 'v) descriptor \<Rightarrow> bool" where
  "reproduces f d \<longleftrightarrow>
     uuid (f (uuid d)) = uuid d \<and>
     (vector (f (uuid d)) = None \<or> vector (f (uuid d)) = vector d)"

text \<open>The list of pairs that encodes a list of descriptors with vectors.\<close>

definition encodes :: "('k \<times> 'v list) list \<Rightarrow> ('k, 'v) descriptor list \<Rightarrow> bool" where
  "encodes r ds = list_all2 (\<lambda>p d. fst p = uuid d \<and> Some (snd p) = vector d) r ds"

subsection \<open>Example values\<close>

text \<open>
  The scenario of the spec: two positive descriptors \<open>P1\<close> and \<open>P2\<close> whose
  neighbours are \<open>[A, B]\<close> and \<open>[B, C]\<close>, and a ranking that scores every pool
  member by ten times the first component of its vector and recommends the first pool
  key for feedback.
\<close>

definition P1 :: "(nat, nat) descriptor" where
  "P1 = \<lparr> uuid = 21, vector = Some [5] \<rparr>"

definition P2 :: "(nat, nat) descriptor" where
  "P2 = \<lparr> uuid = 22, vector = Some [6] \<rparr>"

definition A :: "(nat, nat) descriptor" where
  "A = \<lparr> uuid = 10, vector = Some [9] \<rparr>"

definition B :: "(nat, nat) descriptor" where
  "B = \<lparr> uuid = 11, vector = Some [5] \<rparr>"

definition C :: "(nat, nat) descriptor" where
  "C = \<lparr> uuid = 12, vector = Some [9] \<rparr>"

definition example_nn :: "(nat, nat) nn_index" where
  "example_nn p n = (if uuid p = 21 then [A, B] else if uuid p = 22 then [B, C] else [])"

definition example_score :: "nat list option \<Rightarrow> nat" where
  "example_score v = (case v of Some (x # xs) \<Rightarrow> 10 * x | _ \<Rightarrow> 0)"

definition example_rank :: "(nat, nat, nat) rank_relevancy" where
  "example_rank pos neg pool pool_uids = (map example_score pool, take 1 pool_uids)"

definition example_session :: "(nat, nat, nat) session" where
  "example_session = new_session example_rank 2 ''session''"

section \<open>Facts about the containers\<close>

lemma set_set_add: "set (set_add S x) = insert x (set S)"
  by (auto simp: set_add_def)

lemma set_set_update: "set (set_update S T) = set S \<union> set T"
  unfolding set_update_def
  by (induction T arbitrary: S) (auto simp: set_set_add)

lemma set_set_difference_update: "set (set_difference_update S T) = set S - set T"
  by (auto simp: set_difference_update_def)

lemma set_set_of_iterable: "set (set_of_iterable xs) = set xs"
  by (simp add: set_of_iterable_def)

lemma set_set_union: "set (set_union S T) = set S \<union> set T"
  by (simp add: set_union_def set_set_update set_set_of_iterable)

lemmas pyset_simps =
  set_set_add set_set_update set_set_difference_update set_set_of_iterable set_set_union

section \<open>The example session, evaluated\<close>

lemma example_distinct:
  "P1 \<noteq> P2" "P1 \<noteq> A" "P1 \<noteq> B" "P1 \<noteq> C" "P2 \<noteq> P1" "P2 \<noteq> A" "P2 \<noteq> B" "P2 \<noteq> C"
  "A \<noteq> P1" "A \<noteq> P2" "A \<noteq> B" "A \<noteq> C" "B \<noteq> P1" "B \<noteq> P2" "B \<noteq> A" "B \<noteq> C"
  "C \<noteq> P1" "C \<noteq> P2" "C \<noteq> A" "C \<noteq> B"
  by (simp_all add: P1_def P2_def A_def B_def C_def)

lemma example_fields:
  "uuid P1 = 21" "uuid P2 = 22" "uuid A = 10" "uuid B = 11" "uuid C = 12"
  "vector P1 = Some [5]" "vector P2 = Some [6]"
  "vector A = Some [9]" "vector B = Some [5]" "vector C = Some [9]"
  by (simp_all add: P1_def P2_def A_def B_def C_def)

lemmas pyset_defs = set_union_def set_update_def set_add_def set_of_iterable_def
  set_difference_update_def

lemma example_adjudicate:
  "adjudicate [P1, P2] [] [] [] example_session =
     example_session \<lparr> positive_descriptors := [P1, P2] \<rparr>"
  by (simp add: example_distinct adjudicate_def Let_def example_session_def new_session_def pyset_defs)

lemma example_grow:
  "update_working_set example_nn (example_session \<lparr> positive_descriptors := [P1, P2] \<rparr>) =
     (None, example_session
              \<lparr> positive_descriptors := [P1, P2],
                working_set := [(10, A), (11, B), (12, C)], wi_seeds_used := [21, 22] \<rparr>)"
  by (simp add: example_distinct update_working_set_def update_working_set_body_def Let_def
        example_session_def new_session_def pyset_defs add_many_descriptors_def
        example_nn_def example_fields)

lemma example_refine:
  "refine (example_session
              \<lparr> positive_descriptors := [P1, P2],
                working_set := [(10, A), (11, B), (12, C)], wi_seeds_used := [21, 22] \<rparr>) =
     (None, example_session
              \<lparr> positive_descriptors := [P1, P2],
                working_set := [(10, A), (11, B), (12, C)], wi_seeds_used := [21, 22],
                results := Some [(A, 90), (B, 50), (C, 90)],
                feedback_list := Some [A],
                rank_contrib_pos := [P1, P2] \<rparr>)"
  by (simp add: example_distinct refine_def Let_def example_session_def new_session_def pyset_defs
        iterdescriptors_def dict_of_pairs_def example_rank_def example_score_def
        example_fields)

text \<open>
  The scenario of the spec: with \<open>P1\<close> and \<open>P2\<close> positive, one call of
  \<^verbatim>\<open>update_working_set\<close> builds the working set \<open>{A, B, C}\<close> from the seeds
  \<open>P1\<close> and \<open>P2\<close>, and \<^verbatim>\<open>refine\<close> ranks it. \<open>A\<close> and \<open>C\<close> share the
  highest score, and \<open>A\<close>, enumerated first, comes first.
\<close>

lemma example_run:
  "run example_session [Store (Adjudicate [P1, P2] [] [] []), Grow example_nn, Refine] =
     example_session
       \<lparr> positive_descriptors := [P1, P2],
         working_set := [(10, A), (11, B), (12, C)], wi_seeds_used := [21, 22],
         results := Some [(A, 90), (B, 50), (C, 90)],
         feedback_list := Some [A],
         rank_contrib_pos := [P1, P2] \<rparr>"
  by (simp add: run_def example_adjudicate example_grow example_refine)

lemma example_ordered_results:
  "fst (ordered_results (run example_session
       [Store (Adjudicate [P1, P2] [] [] []), Grow example_nn, Refine])) =
     [(A, 90), (C, 90), (B, 50)]"
  by (simp only: example_run)
     (simp add: ordered_results_def sorted_reverse_def Let_def
        example_session_def new_session_def)

section \<open>The adjudication store\<close>

lemma adjudicate_positive:
  "set (positive_descriptors (adjudicate np nn up un s)) =
     (set (positive_descriptors s) \<union> set np) - set up - set nn"
  by (simp add: adjudicate_def Let_def pyset_simps)

lemma adjudicate_negative:
  "set (negative_descriptors (adjudicate np nn up un s)) =
     (set (negative_descriptors s) \<union> set nn) - set un - set np"
  by (simp add: adjudicate_def Let_def pyset_simps)

lemma adjudicate_external:
  "external_positive_descriptors (adjudicate np nn up un s) = external_positive_descriptors s"
  "external_negative_descriptors (adjudicate np nn up un s) = external_negative_descriptors s"
  by (simp_all add: adjudicate_def Let_def)

lemma external_descriptors_positive:
  "set (external_positive_descriptors (external_descriptors p n s)) =
     (set (external_positive_descriptors s) \<union> set p) - set n"
  by (simp add: external_descriptors_def Let_def pyset_simps)

lemma external_descriptors_negative:
  "set (external_negative_descriptors (external_descriptors p n s)) =
     (set (external_negative_descriptors s) \<union> set n) - set p"
  by (simp add: external_descriptors_def Let_def pyset_simps)

lemma external_descriptors_adjudicated:
  "positive_descriptors (external_descriptors p n s) = positive_descriptors s"
  "negative_descriptors (external_descriptors p n s) = negative_descriptors s"
  by (simp_all add: external_descriptors_def Let_def)

lemma adjudications_disjoint_new_session: "adjudications_disjoint (new_session rank n uid)"
  by (simp add: adjudications_disjoint_def new_session_def)

lemma adjudications_disjoint_reset: "adjudications_disjoint (reset s)"
  by (simp add: adjudications_disjoint_def reset_def)

lemma adjudications_disjoint_store_step:
  assumes "adjudications_disjoint s"
  shows "adjudications_disjoint (store_step s c)"
proof (cases c)
  case (Adjudicate np nn up un)
  with assms show ?thesis
    unfolding adjudications_disjoint_def
    by (simp add: adjudicate_positive adjudicate_negative adjudicate_external) blast
next
  case (SetExternal p n)
  with assms show ?thesis
    unfolding adjudications_disjoint_def
    by (simp add: external_descriptors_positive external_descriptors_negative
          external_descriptors_adjudicated) blast
qed

lemma adjudications_disjoint_store_run:
  "adjudications_disjoint s \<Longrightarrow> adjudications_disjoint (store_run s cs)"
  unfolding store_run_def
  by (induction cs arbitrary: s) (simp_all add: adjudications_disjoint_store_step)

text \<open>
  Claim C1. Start from a fresh session or from any session after \<^verbatim>\<open>reset\<close>, and
  make any sequence of \<^verbatim>\<open>adjudicate\<close> and \<^verbatim>\<open>external_descriptors\<close> calls. In the
  session reached, no descriptor is both positive and negative, and no descriptor is
  both external positive and external negative. The sequence is arbitrary, so this
  holds after every call of it.
\<close>

theorem adjudication_sets_disjoint:
  "adjudications_disjoint (store_run (new_session rank n uid) cs) \<and>
   adjudications_disjoint (store_run (reset s) cs)"
  by (simp add: adjudications_disjoint_store_run adjudications_disjoint_new_session
        adjudications_disjoint_reset)

text \<open>
  Claim C3, as amended. A descriptor given to \<^verbatim>\<open>external_descriptors\<close> in both
  arguments is, after the call, a member of neither the external positive nor the
  external negative set: each set is updated with its own argument and then loses the
  other argument. The call has no error exit.
\<close>

theorem set_external_overlap_cancels:
  assumes "d \<in> set P" and "d \<in> set N"
  shows "d \<notin> set (external_positive_descriptors (external_descriptors P N s)) \<and>
         d \<notin> set (external_negative_descriptors (external_descriptors P N s))"
  using assms by (simp add: external_descriptors_positive external_descriptors_negative)

theorem set_external_overlap_cancels_witness:
  "P1 \<in> set [P1, P2] \<and> P1 \<in> set [A, P1] \<and>
   P1 \<notin> set (external_positive_descriptors
              (external_descriptors [P1, P2] [A, P1] example_session)) \<and>
   P1 \<notin> set (external_negative_descriptors
              (external_descriptors [P1, P2] [A, P1] example_session))"
  using set_external_overlap_cancels [of P1 "[P1, P2]" "[A, P1]" example_session]
  by simp

text \<open>
  Claim C3 as the spec words it, with the descriptor ending up external negative,
  fails: \<open>P1\<close>, given as both external positive and external negative to a fresh
  session, is not external negative afterwards.
\<close>

theorem set_external_overlap_counterexample:
  "P1 \<in> set [P1] \<and> P1 \<in> set [P1] \<and>
   P1 \<notin> set (external_negative_descriptors (external_descriptors [P1] [P1] example_session))"
  by (simp add: external_descriptors_negative)

text \<open>
  Claim C5. A descriptor listed among the new positives and the new negatives of one
  \<^verbatim>\<open>adjudicate\<close> call is, after the call, neither positive nor negative.
\<close>

theorem adjudicate_cancellation:
  assumes "d \<in> set new_positives" and "d \<in> set new_negatives"
  shows "d \<notin> set (positive_descriptors
                   (adjudicate new_positives new_negatives un_positives un_negatives s)) \<and>
         d \<notin> set (negative_descriptors
                   (adjudicate new_positives new_negatives un_positives un_negatives s))"
  using assms by (simp add: adjudicate_positive adjudicate_negative)

theorem adjudicate_cancellation_witness:
  "A \<in> set [A, B] \<and> A \<in> set [C, A] \<and>
   A \<notin> set (positive_descriptors (adjudicate [A, B] [C, A] [] [] example_session)) \<and>
   A \<notin> set (negative_descriptors (adjudicate [A, B] [C, A] [] [] example_session))"
  using adjudicate_cancellation [of A "[A, B]" "[C, A]" "[]" "[]" example_session]
  by simp

section \<open>The working set builder\<close>

text \<open>
  Claim C7. \<^verbatim>\<open>update_working_set\<close> raises its \<^verbatim>\<open>RuntimeError\<close> exactly when
  the positive and the external positive set are both empty, it raises nothing else,
  and a call that raises leaves the session, so also the working set and the seeds
  used, as it was.
\<close>

theorem update_working_set_raises_iff:
  "(fst (update_working_set nn_index s) = Some NoPositiveDescriptors \<longleftrightarrow>
      set (positive_descriptors s) \<union> set (external_positive_descriptors s) = {}) \<and>
   (fst (update_working_set nn_index s) \<noteq> None \<longrightarrow>
      fst (update_working_set nn_index s) = Some NoPositiveDescriptors \<and>
      snd (update_working_set nn_index s) = s)"
proof -
  let ?pos_examples = "set_union (external_positive_descriptors s) (positive_descriptors s)"
  have "?pos_examples = [] \<longleftrightarrow>
      set (positive_descriptors s) \<union> set (external_positive_descriptors s) = {}"
    using set_set_union [of "external_positive_descriptors s" "positive_descriptors s"]
    by (metis Un_commute set_empty)
  then show ?thesis
    by (simp add: update_working_set_def Let_def)
qed

theorem update_working_set_raises_iff_witness:
  "fst (update_working_set example_nn example_session) = Some NoPositiveDescriptors \<and>
   snd (update_working_set example_nn example_session) = example_session \<and>
   fst (update_working_set example_nn (adjudicate [P1] [] [] [] example_session)) = None"
proof -
  have "set (positive_descriptors example_session) \<union>
        set (external_positive_descriptors example_session) = {}"
    by (simp add: example_session_def new_session_def)
  moreover have "set (positive_descriptors (adjudicate [P1] [] [] [] example_session)) \<union>
        set (external_positive_descriptors (adjudicate [P1] [] [] [] example_session)) \<noteq> {}"
    by (simp add: adjudicate_positive)
  ultimately show ?thesis
    using update_working_set_raises_iff [of example_nn example_session]
      update_working_set_raises_iff [of example_nn "adjudicate [P1] [] [] [] example_session"]
    by metis
qed

text \<open>What one pass of the loop of \<^verbatim>\<open>update_working_set\<close> changes and keeps.\<close>

lemma length_dict_set: "length m \<le> length (dict_set m k v)"
  by (induction m k v rule: dict_set.induct) auto

lemma keys_dict_set: "fst ` set (dict_set m k v) = insert k (fst ` set m)"
  by (induction m k v rule: dict_set.induct) auto

lemma length_add_many_descriptors: "length ws \<le> length (add_many_descriptors ws ds)"
  unfolding add_many_descriptors_def
proof (induction ds arbitrary: ws)
  case Nil
  show ?case by simp
next
  case (Cons d ds)
  have "length ws \<le> length (dict_set ws (uuid d) d)"
    by (rule length_dict_set)
  also have "\<dots> \<le> length (foldl (\<lambda>m d. dict_set m (uuid d) d) (dict_set ws (uuid d) d) ds)"
    by (rule Cons.IH)
  finally show ?case by simp
qed

lemma keys_add_many_descriptors:
  "fst ` set (add_many_descriptors ws ds) = fst ` set ws \<union> uuid ` set ds"
  unfolding add_many_descriptors_def
  by (induction ds arbitrary: ws) (auto simp: keys_dict_set)

lemma body_frame:
  "positive_descriptors (update_working_set_body nn_index s p) = positive_descriptors s"
  "external_positive_descriptors (update_working_set_body nn_index s p) =
     external_positive_descriptors s"
  by (simp_all add: update_working_set_body_def)

lemma body_seeds:
  "set (wi_seeds_used (update_working_set_body nn_index s p)) =
     insert (uuid p) (set (wi_seeds_used s))"
  by (auto simp: update_working_set_body_def set_set_add)

lemma body_length:
  "length (working_set s) \<le> length (working_set (update_working_set_body nn_index s p))"
  by (simp add: update_working_set_body_def length_add_many_descriptors)

lemma body_keys:
  "fst ` set (working_set s) \<subseteq>
     fst ` set (working_set (update_working_set_body nn_index s p))"
  by (auto simp: update_working_set_body_def keys_add_many_descriptors)

lemma loop_frame:
  "positive_descriptors (foldl (update_working_set_body nn_index) s ps) =
     positive_descriptors s \<and>
   external_positive_descriptors (foldl (update_working_set_body nn_index) s ps) =
     external_positive_descriptors s"
  by (induction ps arbitrary: s) (simp_all add: body_frame)

lemma loop_seeds:
  "set (wi_seeds_used (foldl (update_working_set_body nn_index) s ps)) =
     set (wi_seeds_used s) \<union> uuid ` set ps"
  by (induction ps arbitrary: s) (auto simp: body_seeds)

lemma loop_length:
  "length (working_set s) \<le>
     length (working_set (foldl (update_working_set_body nn_index) s ps))"
proof (induction ps arbitrary: s)
  case Nil
  show ?case by simp
next
  case (Cons p ps)
  from body_length [of s nn_index p] Cons.IH [of "update_working_set_body nn_index s p"]
  show ?case by simp
qed

lemma loop_keys:
  "fst ` set (working_set s) \<subseteq>
     fst ` set (working_set (foldl (update_working_set_body nn_index) s ps))"
proof (induction ps arbitrary: s)
  case Nil
  show ?case by simp
next
  case (Cons p ps)
  from body_keys [of s nn_index p] Cons.IH [of "update_working_set_body nn_index s p"]
  show ?case by auto
qed

text \<open>A loop over examples that have all been used as seeds changes nothing.\<close>

lemma loop_all_seeds_used:
  "uuid ` set ps \<subseteq> set (wi_seeds_used s) \<Longrightarrow>
     foldl (update_working_set_body nn_index) s ps = s"
  by (induction ps) (auto simp: update_working_set_body_def)

lemma update_working_set_twice:
  "update_working_set nn_index (snd (update_working_set nn_index s)) =
     update_working_set nn_index s"
proof -
  let ?ps = "set_union (external_positive_descriptors s) (positive_descriptors s)"
  let ?s1 = "foldl (update_working_set_body nn_index) s ?ps"
  show ?thesis
  proof (cases "length ?ps = 0")
    case True
    then show ?thesis by (simp add: update_working_set_def Let_def)
  next
    case False
    have ps1: "set_union (external_positive_descriptors ?s1) (positive_descriptors ?s1) = ?ps"
      using loop_frame [of nn_index s ?ps] by simp
    have "uuid ` set ?ps \<subseteq> set (wi_seeds_used ?s1)"
      by (simp add: loop_seeds)
    then have "foldl (update_working_set_body nn_index) ?s1 ?ps = ?s1"
      by (rule loop_all_seeds_used)
    with False ps1 show ?thesis
      by (simp add: update_working_set_def Let_def)
  qed
qed

lemma update_working_set_length:
  "length (working_set s) \<le> length (working_set (snd (update_working_set nn_index s)))"
  by (simp add: update_working_set_def Let_def loop_length)

lemma update_working_set_keys:
  "fst ` set (working_set s) \<subseteq> fst ` set (working_set (snd (update_working_set nn_index s)))"
  using loop_keys [of s nn_index] by (simp add: update_working_set_def Let_def)

text \<open>No other call than the clearing ones touches the working set.\<close>

lemma store_step_working_set: "working_set (store_step s c) = working_set s"
  by (cases c) (simp_all add: adjudicate_def external_descriptors_def Let_def)

lemma refine_working_set: "working_set (snd (refine s)) = working_set s"
  by (simp add: refine_def Let_def split: prod.splits option.splits)

lemma ordered_results_working_set: "working_set (snd (ordered_results s)) = working_set s"
  by (simp add: ordered_results_def Let_def split: option.splits)

lemma views_working_set:
  "working_set (snd (get_positive_adjudication_relevancy s)) = working_set s"
  "working_set (snd (get_negative_adjudication_relevancy s)) = working_set s"
  "working_set (snd (get_unadjudicated_relevancy s)) = working_set s"
  by (simp_all add: get_positive_adjudication_relevancy_def
        get_negative_adjudication_relevancy_def get_unadjudicated_relevancy_def Let_def
        case_prod_beta ordered_results_working_set split: option.splits)

lemma step_working_set:
  assumes "\<not> clears_working_set c"
  shows "length (working_set s) \<le> length (working_set (step s c)) \<and>
         fst ` set (working_set s) \<subseteq> fst ` set (working_set (step s c))"
  using assms
  by (cases c)
     (simp_all add: store_step_working_set refine_working_set ordered_results_working_set
        views_working_set update_working_set_length update_working_set_keys)

lemma run_working_set:
  assumes "\<forall>c \<in> set cs. \<not> clears_working_set c"
  shows "length (working_set s) \<le> length (working_set (run s cs)) \<and>
         fst ` set (working_set s) \<subseteq> fst ` set (working_set (run s cs))"
  using assms unfolding run_def
proof (induction cs arbitrary: s)
  case Nil
  show ?case by simp
next
  case (Cons c cs)
  from Cons.prems have c: "\<not> clears_working_set c"
    and cs: "\<forall>c \<in> set cs. \<not> clears_working_set c"
    by simp_all
  from step_working_set [OF c, of s] Cons.IH [OF cs, of "step s c"]
  show ?case by auto
qed

text \<open>
  Claim C8. A second \<^verbatim>\<open>update_working_set\<close> with the same neighbour index right
  after a first one returns as the first did and leaves the whole session, so the
  working set and the seeds used, as the first call left it; with a positive or
  external positive descriptor neither call raises. Over any sequence of calls with no
  \<^verbatim>\<open>reset\<close> and no import, whatever is adjudicated in between, the working set
  never gets smaller and never loses a key.
\<close>

theorem update_working_set_idempotent_monotone:
  assumes "set (positive_descriptors s) \<union> set (external_positive_descriptors s) \<noteq> {}"
    and "\<forall>c \<in> set cs. \<not> clears_working_set c"
  shows "fst (update_working_set nn_index s) = None \<and>
         update_working_set nn_index (snd (update_working_set nn_index s)) =
           (None, snd (update_working_set nn_index s)) \<and>
         length (working_set s) \<le> length (working_set (run s cs)) \<and>
         fst ` set (working_set s) \<subseteq> fst ` set (working_set (run s cs))"
proof -
  have "set (set_union (external_positive_descriptors s) (positive_descriptors s)) \<noteq> {}"
    using assms(1) by (simp add: set_set_union Un_commute)
  then have "set_union (external_positive_descriptors s) (positive_descriptors s) \<noteq> []"
    by auto
  then have ok: "fst (update_working_set nn_index s) = None"
    by (simp add: update_working_set_def Let_def)
  have "update_working_set nn_index (snd (update_working_set nn_index s)) =
          update_working_set nn_index s"
    by (rule update_working_set_twice)
  with ok have "update_working_set nn_index (snd (update_working_set nn_index s)) =
          (None, snd (update_working_set nn_index s))"
    by (metis prod.collapse)
  with ok run_working_set [OF assms(2), of s] show ?thesis
    by simp
qed
theorem update_working_set_idempotent_monotone_witness:
  "fst (update_working_set example_nn (adjudicate [P1, P2] [] [] [] example_session)) = None \<and>
   update_working_set example_nn
     (snd (update_working_set example_nn (adjudicate [P1, P2] [] [] [] example_session))) =
     (None, snd (update_working_set example_nn (adjudicate [P1, P2] [] [] [] example_session))) \<and>
   length (working_set (adjudicate [P1, P2] [] [] [] example_session)) \<le>
     length (working_set
       (run (adjudicate [P1, P2] [] [] [] example_session)
          [Grow example_nn, Store (Adjudicate [] [] [P1] []), Refine, Grow example_nn]))"
proof -
  have 1: "set (positive_descriptors (adjudicate [P1, P2] [] [] [] example_session)) \<union>
      set (external_positive_descriptors (adjudicate [P1, P2] [] [] [] example_session)) \<noteq> {}"
    by (simp add: adjudicate_positive)
  have 2: "\<forall>c \<in> set [Grow example_nn, Store (Adjudicate [] [] [P1] []), Refine,
      Grow example_nn]. \<not> clears_working_set c"
    by simp
  from update_working_set_idempotent_monotone [OF 1 2, of example_nn] show ?thesis
    by simp
qed

section \<open>The refinement engine\<close>

text \<open>
  Claim C10. With a positive or external positive descriptor and an empty working set,
  \<^verbatim>\<open>refine\<close> raises (the \<^verbatim>\<open>ValueError\<close> of unpacking \<^verbatim>\<open>zip(*[])\<close>) and the
  session after the call is the session before it, so the results, the feedback list,
  the four contributing sets and the four cached views are unchanged.
\<close>

theorem refine_empty_working_set_raises:
  assumes "set (positive_descriptors s) \<union> set (external_positive_descriptors s) \<noteq> {}"
    and "working_set s = []"
  shows "refine s = (Some UnpackValueError, s)"
proof -
  have "set (set_union (positive_descriptors s) (external_positive_descriptors s)) \<noteq> {}"
    using assms(1) by (simp add: set_set_union)
  then have "set_union (positive_descriptors s) (external_positive_descriptors s) \<noteq> []"
    by auto
  with assms(2) show ?thesis
    by (simp add: refine_def Let_def)
qed

theorem refine_empty_working_set_raises_witness:
  "set (positive_descriptors (adjudicate [P1] [] [] [] example_session)) \<union>
     set (external_positive_descriptors (adjudicate [P1] [] [] [] example_session)) \<noteq> {} \<and>
   working_set (adjudicate [P1] [] [] [] example_session) = [] \<and>
   refine (adjudicate [P1] [] [] [] example_session) =
     (Some UnpackValueError, adjudicate [P1] [] [] [] example_session)"
proof -
  have 1: "set (positive_descriptors (adjudicate [P1] [] [] [] example_session)) \<union>
     set (external_positive_descriptors (adjudicate [P1] [] [] [] example_session)) \<noteq> {}"
    by (simp add: adjudicate_positive)
  have 2: "working_set (adjudicate [P1] [] [] [] example_session) = []"
    by (simp add: adjudicate_def Let_def example_session_def new_session_def)
  from 1 2 refine_empty_working_set_raises [OF 1 2] show ?thesis
    by simp
qed

section \<open>The result view cache\<close>

subsection \<open>Python's descending stable sort\<close>




subsection \<open>What each call does to the results and their cache\<close>

lemma store_step_results:
  "results (store_step s c) = results s"
  "cached_ordered_results (store_step s c) = cached_ordered_results s"
  "rank_relevancy_with_feedback (store_step s c) = rank_relevancy_with_feedback s"
  by (cases c; simp add: adjudicate_def external_descriptors_def Let_def)+

lemma loop_results:
  "results (foldl (update_working_set_body nn_index) s ps) = results s \<and>
   cached_ordered_results (foldl (update_working_set_body nn_index) s ps) =
     cached_ordered_results s \<and>
   rank_relevancy_with_feedback (foldl (update_working_set_body nn_index) s ps) =
     rank_relevancy_with_feedback s"
  by (induction ps arbitrary: s) (simp_all add: update_working_set_body_def)

lemma update_working_set_results:
  "results (snd (update_working_set nn_index s)) = results s"
  "cached_ordered_results (snd (update_working_set nn_index s)) = cached_ordered_results s"
  "rank_relevancy_with_feedback (snd (update_working_set nn_index s)) =
     rank_relevancy_with_feedback s"
  by (simp_all add: update_working_set_def Let_def loop_results)

lemma ordered_results_results:
  "results (snd (ordered_results s)) = results s"
  "rank_relevancy_with_feedback (snd (ordered_results s)) = rank_relevancy_with_feedback s"
  by (simp_all add: ordered_results_def Let_def split: option.splits)


lemma views_results:
  "results (snd (get_positive_adjudication_relevancy s)) = results s"
  "results (snd (get_negative_adjudication_relevancy s)) = results s"
  "results (snd (get_unadjudicated_relevancy s)) = results s"
  "rank_relevancy_with_feedback (snd (get_positive_adjudication_relevancy s)) =
     rank_relevancy_with_feedback s"
  "rank_relevancy_with_feedback (snd (get_negative_adjudication_relevancy s)) =
     rank_relevancy_with_feedback s"
  "rank_relevancy_with_feedback (snd (get_unadjudicated_relevancy s)) =
     rank_relevancy_with_feedback s"
  by (simp_all add: get_positive_adjudication_relevancy_def
        get_negative_adjudication_relevancy_def get_unadjudicated_relevancy_def Let_def
        case_prod_beta ordered_results_results split: option.splits)

lemma views_cache:
  "cached_ordered_results (snd (get_positive_adjudication_relevancy s)) =
     (if cached_ordered_pos s = None then cached_ordered_results (snd (ordered_results s))
      else cached_ordered_results s)"
  "cached_ordered_results (snd (get_negative_adjudication_relevancy s)) =
     (if cached_ordered_neg s = None then cached_ordered_results (snd (ordered_results s))
      else cached_ordered_results s)"
  "cached_ordered_results (snd (get_unadjudicated_relevancy s)) =
     (if cached_ordered_non_adj s = None then cached_ordered_results (snd (ordered_results s))
      else cached_ordered_results s)"
  by (auto simp: get_positive_adjudication_relevancy_def
        get_negative_adjudication_relevancy_def get_unadjudicated_relevancy_def Let_def
        case_prod_beta split: option.splits)

text \<open>A call that is not invalidating keeps the results and at most fills the cache.\<close>

lemma step_keeps_results:
  assumes "\<not> invalidating c"
  shows "results (step s c) = results s"
  using assms
  by (cases c)
     (simp_all add: store_step_results update_working_set_results ordered_results_results
        views_results)

lemma step_cache:
  assumes "\<not> invalidating c"
  shows "cached_ordered_results (step s c) = cached_ordered_results s \<or>
         cached_ordered_results (step s c) = cached_ordered_results (snd (ordered_results s))"
  using assms
  by (cases c)
     (simp_all add: store_step_results update_working_set_results views_cache)

lemma settled_on_ordered_results: "settled_on (fst (ordered_results s)) (snd (ordered_results s))"
  by (simp add: settled_on_def ordered_results_def Let_def split: option.splits)

lemma settled_on_rows: "settled_on rows s \<Longrightarrow> fst (ordered_results s) = rows"
  by (auto simp: settled_on_def ordered_results_def)



subsection \<open>The cache is coherent in every session reached from a fresh one\<close>















subsection \<open>The view of the positive rows\<close>

lemma ordered_results_rows_cong:
  assumes "results t = results s" and "cached_ordered_results t = cached_ordered_results s"
  shows "fst (ordered_results t) = fst (ordered_results s)"
proof (cases "cached_ordered_results s")
  case None
  with assms show ?thesis
    by (cases "results s") (simp_all add: ordered_results_def Let_def)
next
  case (Some r)
  with assms show ?thesis
    by (simp add: ordered_results_def)
qed

lemma ordered_results_twice:
  "fst (ordered_results (snd (ordered_results s))) = fst (ordered_results s)"
  using settled_on_ordered_results by (rule settled_on_rows)

lemma step_rows:
  assumes "\<not> invalidating c"
  shows "fst (ordered_results (step s c)) = fst (ordered_results s)"
proof -
  from step_cache [OF assms, of s] show ?thesis
  proof
    assume "cached_ordered_results (step s c) = cached_ordered_results s"
    with step_keeps_results [OF assms, of s] show ?thesis
      by (rule ordered_results_rows_cong)
  next
    assume cache: "cached_ordered_results (step s c) =
        cached_ordered_results (snd (ordered_results s))"
    have "results (step s c) = results (snd (ordered_results s))"
      using step_keeps_results [OF assms, of s] by (simp add: ordered_results_results)
    then have "fst (ordered_results (step s c)) =
        fst (ordered_results (snd (ordered_results s)))"
      using cache by (rule ordered_results_rows_cong)
    then show ?thesis
      by (simp add: ordered_results_twice)
  qed
qed

lemma store_step_contrib:
  "rank_contrib_pos (store_step s c) = rank_contrib_pos s"
  "rank_contrib_pos_ext (store_step s c) = rank_contrib_pos_ext s"
  by (cases c; simp add: adjudicate_def external_descriptors_def Let_def)+

lemma store_step_pos_cache:
  "cached_ordered_pos (store_step s c) = cached_ordered_pos s \<or>
   cached_ordered_pos (store_step s c) = None"
  by (cases c) (simp_all add: adjudicate_def external_descriptors_def Let_def)

lemma loop_contrib:
  "rank_contrib_pos (foldl (update_working_set_body nn_index) s ps) = rank_contrib_pos s \<and>
   rank_contrib_pos_ext (foldl (update_working_set_body nn_index) s ps) =
     rank_contrib_pos_ext s \<and>
   cached_ordered_pos (foldl (update_working_set_body nn_index) s ps) = cached_ordered_pos s"
  by (induction ps arbitrary: s) (simp_all add: update_working_set_body_def)

lemma update_working_set_contrib:
  "rank_contrib_pos (snd (update_working_set nn_index s)) = rank_contrib_pos s"
  "rank_contrib_pos_ext (snd (update_working_set nn_index s)) = rank_contrib_pos_ext s"
  "cached_ordered_pos (snd (update_working_set nn_index s)) = cached_ordered_pos s"
  by (simp_all add: update_working_set_def Let_def loop_contrib)

lemma ordered_results_contrib:
  "rank_contrib_pos (snd (ordered_results s)) = rank_contrib_pos s"
  "rank_contrib_pos_ext (snd (ordered_results s)) = rank_contrib_pos_ext s"
  "cached_ordered_pos (snd (ordered_results s)) = cached_ordered_pos s"
  by (simp_all add: ordered_results_def Let_def split: option.splits)

lemma views_contrib:
  "rank_contrib_pos (snd (get_positive_adjudication_relevancy s)) = rank_contrib_pos s"
  "rank_contrib_pos_ext (snd (get_positive_adjudication_relevancy s)) = rank_contrib_pos_ext s"
  "rank_contrib_pos (snd (get_negative_adjudication_relevancy s)) = rank_contrib_pos s"
  "rank_contrib_pos_ext (snd (get_negative_adjudication_relevancy s)) = rank_contrib_pos_ext s"
  "rank_contrib_pos (snd (get_unadjudicated_relevancy s)) = rank_contrib_pos s"
  "rank_contrib_pos_ext (snd (get_unadjudicated_relevancy s)) = rank_contrib_pos_ext s"
  "cached_ordered_pos (snd (get_negative_adjudication_relevancy s)) = cached_ordered_pos s"
  "cached_ordered_pos (snd (get_unadjudicated_relevancy s)) = cached_ordered_pos s"
  by (simp_all add: get_positive_adjudication_relevancy_def
        get_negative_adjudication_relevancy_def get_unadjudicated_relevancy_def Let_def
        case_prod_beta ordered_results_contrib split: option.splits)

lemma get_positive_pos_cache:
  "cached_ordered_pos (snd (get_positive_adjudication_relevancy s)) =
     (case cached_ordered_pos s of Some r \<Rightarrow> Some r | None \<Rightarrow> Some (positive_rows s))"
  by (simp add: get_positive_adjudication_relevancy_def positive_rows_def Let_def
        case_prod_beta split: option.splits)

lemma step_contrib:
  assumes "\<not> invalidating c"
  shows "rank_contrib_pos (step s c) = rank_contrib_pos s \<and>
         rank_contrib_pos_ext (step s c) = rank_contrib_pos_ext s"
  using assms
  by (cases c)
     (simp_all add: store_step_contrib update_working_set_contrib ordered_results_contrib
        views_contrib)

lemma step_positive_rows:
  assumes "\<not> invalidating c"
  shows "positive_rows (step s c) = positive_rows s"
  using step_contrib [OF assms, of s] step_rows [OF assms, of s]
  by (simp add: positive_rows_def)

lemma step_pos_cache:
  assumes "\<not> invalidating c"
  shows "cached_ordered_pos (step s c) = cached_ordered_pos s \<or>
         cached_ordered_pos (step s c) = None \<or>
         cached_ordered_pos (step s c) = Some (positive_rows s)"
proof (cases c)
  case (Store x)
  with store_step_pos_cache [of s x] show ?thesis by auto
next
  case OrderedPositive
  then show ?thesis
    by (cases "cached_ordered_pos s") (simp_all add: get_positive_pos_cache)
qed (use assms in \<open>simp_all add: update_working_set_contrib ordered_results_contrib
        views_contrib\<close>)

lemma positive_cache_coherent_step:
  assumes "positive_cache_coherent s" and "\<not> invalidating c"
  shows "positive_cache_coherent (step s c)"
  using assms(1) step_pos_cache [OF assms(2), of s] step_positive_rows [OF assms(2), of s]
  unfolding positive_cache_coherent_def by auto

lemma positive_cache_coherent_run:
  assumes "positive_cache_coherent s" and "\<forall>c \<in> set cs. \<not> invalidating c"
  shows "positive_cache_coherent (run s cs) \<and> positive_rows (run s cs) = positive_rows s"
  using assms unfolding run_def
proof (induction cs arbitrary: s)
  case Nil
  then show ?case by simp
next
  case (Cons c cs)
  from Cons.prems have c: "\<not> invalidating c" and cs: "\<forall>c \<in> set cs. \<not> invalidating c"
    by simp_all
  from Cons.IH [OF positive_cache_coherent_step [OF Cons.prems(1) c] cs]
    step_positive_rows [OF c, of s]
  show ?case by simp
qed

lemma get_positive_rows:
  assumes "positive_cache_coherent s"
  shows "fst (get_positive_adjudication_relevancy s) = positive_rows s"
  using assms
  by (auto simp: positive_cache_coherent_def get_positive_adjudication_relevancy_def
        positive_rows_def Let_def case_prod_beta)

lemma refine_success:
  assumes "refine s = (None, s1)"
  shows "rank_contrib_pos s1 = positive_descriptors s \<and>
         rank_contrib_pos_ext s1 = external_positive_descriptors s \<and>
         cached_ordered_pos s1 = None \<and> cached_ordered_results s1 = None"
  using assms
  by (auto simp: refine_def Let_def case_prod_beta split: if_splits option.splits)

text \<open>
  Claim C2. Let \<^verbatim>\<open>refine\<close> return without raising, and let any calls follow that
  are not \<^verbatim>\<open>refine\<close>, \<^verbatim>\<open>reset\<close> or the import: \<^verbatim>\<open>adjudicate\<close> and
  \<^verbatim>\<open>external_descriptors\<close> calls, and also calls of the views and of
  \<^verbatim>\<open>update_working_set\<close>. Then \<^verbatim>\<open>get_positive_adjudication_relevancy\<close> returns
  the rows of \<^verbatim>\<open>ordered_results\<close> as they were after the refine, restricted to the
  descriptors that were positive or external positive when \<^verbatim>\<open>refine\<close> was called;
  the rows of \<^verbatim>\<open>ordered_results\<close> have not changed either.
\<close>

theorem ordered_positive_after_refine:
  assumes "refine s = (None, s1)"
    and "\<forall>c \<in> set cs. \<not> invalidating c"
  shows "fst (get_positive_adjudication_relevancy (run s1 cs)) =
           filter (\<lambda>t. fst t \<in> set (positive_descriptors s) \<union>
                              set (external_positive_descriptors s))
             (fst (ordered_results s1)) \<and>
         fst (ordered_results (run s1 cs)) = fst (ordered_results s1)"
proof -
  from refine_success [OF assms(1)]
  have contrib: "rank_contrib_pos s1 = positive_descriptors s"
      "rank_contrib_pos_ext s1 = external_positive_descriptors s"
    and "cached_ordered_pos s1 = None"
    by simp_all
  then have "positive_cache_coherent s1"
    by (simp add: positive_cache_coherent_def)
  from positive_cache_coherent_run [OF this assms(2)]
  have "positive_cache_coherent (run s1 cs)"
    and rows: "positive_rows (run s1 cs) = positive_rows s1"
    by simp_all
  then have "fst (get_positive_adjudication_relevancy (run s1 cs)) = positive_rows s1"
    by (simp add: get_positive_rows)
  moreover have "positive_rows s1 =
      filter (\<lambda>t. fst t \<in> set (positive_descriptors s) \<union>
                         set (external_positive_descriptors s))
        (fst (ordered_results s1))"
    by (simp add: positive_rows_def contrib set_set_union)
  moreover have "fst (ordered_results (run s1 cs)) = fst (ordered_results s1)"
    using assms(2) unfolding run_def
    by (induction cs arbitrary: s1) (simp_all add: step_rows)
  ultimately show ?thesis
    by simp
qed

text \<open>
  In the example \<open>P1\<close> and \<open>A\<close> are positive when the working set \<open>{A, B, C}\<close> is
  ranked. Afterwards \<open>A\<close> is taken back and \<open>C\<close> made positive, and the view still
  shows \<open>A\<close> and not \<open>C\<close>.
\<close>

lemma example_refine_A:
  "refine (example_session
              \<lparr> positive_descriptors := [P1, A],
                working_set := [(10, A), (11, B), (12, C)] \<rparr>) =
     (None, example_session
              \<lparr> positive_descriptors := [P1, A],
                working_set := [(10, A), (11, B), (12, C)],
                results := Some [(A, 90), (B, 50), (C, 90)],
                feedback_list := Some [A],
                rank_contrib_pos := [P1, A] \<rparr>)"
  by (simp add: example_distinct refine_def Let_def example_session_def new_session_def
        pyset_defs iterdescriptors_def dict_of_pairs_def example_rank_def example_score_def
        example_fields)

theorem ordered_positive_after_refine_witness:
  "fst (get_positive_adjudication_relevancy
          (run (snd (refine (example_session
                  \<lparr> positive_descriptors := [P1, A],
                    working_set := [(10, A), (11, B), (12, C)] \<rparr>)))
             [Store (Adjudicate [C] [] [A] []), OrderedPositive,
              Store (Adjudicate [B] [] [] []), Store (SetExternal [C] [])])) =
     [(A, 90)]"
proof -
  let ?s = "example_session \<lparr> positive_descriptors := [P1, A],
      working_set := [(10, A), (11, B), (12, C)] \<rparr>"
  have 1: "refine ?s = (None, snd (refine ?s))"
    by (simp only: example_refine_A) simp
  have 2: "\<forall>c \<in> set [Store (Adjudicate [C] [] [A] []), OrderedPositive,
      Store (Adjudicate [B] [] [] []), Store (SetExternal [C] [])]. \<not> invalidating c"
    by simp
  have 3: "positive_descriptors ?s = [P1, A]" "external_positive_descriptors ?s = []"
    by (simp_all add: example_session_def new_session_def)
  have 4: "fst (ordered_results (snd (refine ?s))) = [(A, 90), (C, 90), (B, 50)]"
    by (simp only: example_refine_A)
       (simp add: ordered_results_def sorted_reverse_def Let_def example_session_def
          new_session_def)
  from ordered_positive_after_refine [OF 1 2] 3 4 show ?thesis
    by (simp add: example_distinct)
qed

section \<open>The state codec\<close>

lemma d_set_to_list_encodes:
  assumes "\<forall>d \<in> set ds. vector d \<noteq> None"
  shows "\<exists>r. d_set_to_list ds = Inr r \<and> encodes r ds"
  using assms
proof (induction ds)
  case Nil
  show ?case by (simp add: encodes_def)
next
  case (Cons d ds)
  then obtain r where r: "d_set_to_list ds = Inr r" "encodes r ds"
    by auto
  from Cons.prems obtain v where v: "vector d = Some v"
    by auto
  with r show ?case
    by (simp add: encodes_def)
qed

lemma load_descriptor_reproduces:
  assumes "reproduces f d" and "vector d = Some v"
  shows "load_descriptor f (uuid d) v = Inr d"
proof (cases "vector (f (uuid d))")
  case None
  have "(f (uuid d)) \<lparr> vector := Some v \<rparr> = d"
    using assms by (simp add: reproduces_def)
  with None show ?thesis
    by (simp add: load_descriptor_def)
next
  case (Some w)
  with assms have "w = v" and "f (uuid d) = d"
    by (simp_all add: reproduces_def)
  with Some show ?thesis
    by (simp add: load_descriptor_def)
qed

lemma load_source_encodes:
  assumes "encodes r ds" and "\<forall>d \<in> set ds. reproduces f d"
  shows "load_source f r target = (None, set_update target ds)"
  using assms unfolding encodes_def set_update_def
proof (induction r ds arbitrary: target rule: list_all2_induct)
  case Nil
  show ?case by simp
next
  case (Cons p r d ds)
  from Cons.hyps(1) Cons.prems have "load_descriptor f (fst p) (snd p) = Inr d"
    using load_descriptor_reproduces [of f d "snd p"] by simp
  moreover from Cons.prems have "\<forall>d \<in> set ds. reproduces f d"
    by simp
  ultimately show ?case
    using Cons.IH [of "set_add target d"] by (cases p) simp
qed

lemma get_state_bytes_encodes:
  assumes "\<forall>d \<in> set (adjudicated_descriptors s). vector d \<noteq> None"
  shows "\<exists>pos_d neg_d ext_pos_d ext_neg_d.
           get_state_bytes s =
             Inr [(STATE_ZIP_FILENAME,
                   \<lparr> state_pos = pos_d, state_neg = neg_d,
                     state_external_pos = ext_pos_d, state_external_neg = ext_neg_d \<rparr>)] \<and>
           encodes pos_d (positive_descriptors s) \<and>
           encodes neg_d (negative_descriptors s) \<and>
           encodes ext_pos_d (external_positive_descriptors s) \<and>
           encodes ext_neg_d (external_negative_descriptors s)"
proof -
  from assms obtain pos_d where 1:
    "d_set_to_list (positive_descriptors s) = Inr pos_d" "encodes pos_d (positive_descriptors s)"
    using d_set_to_list_encodes [of "positive_descriptors s"]
    by (auto simp: adjudicated_descriptors_def)
  from assms obtain neg_d where 2:
    "d_set_to_list (negative_descriptors s) = Inr neg_d" "encodes neg_d (negative_descriptors s)"
    using d_set_to_list_encodes [of "negative_descriptors s"]
    by (auto simp: adjudicated_descriptors_def)
  from assms obtain ext_pos_d where 3:
    "d_set_to_list (external_positive_descriptors s) = Inr ext_pos_d"
    "encodes ext_pos_d (external_positive_descriptors s)"
    using d_set_to_list_encodes [of "external_positive_descriptors s"]
    by (auto simp: adjudicated_descriptors_def)
  from assms obtain ext_neg_d where 4:
    "d_set_to_list (external_negative_descriptors s) = Inr ext_neg_d"
    "encodes ext_neg_d (external_negative_descriptors s)"
    using d_set_to_list_encodes [of "external_negative_descriptors s"]
    by (auto simp: adjudicated_descriptors_def)
  from 1 2 3 4 show ?thesis
    by (simp add: get_state_bytes_def)
qed

lemma set_state_bytes_loaded:
  assumes "encodes pos_d P" and "encodes neg_d N"
    and "encodes ext_pos_d EP" and "encodes ext_neg_d EN"
    and "\<forall>d \<in> set P \<union> set N \<union> set EP \<union> set EN. reproduces f d"
  shows "set_state_bytes
           [(STATE_ZIP_FILENAME,
             \<lparr> state_pos = pos_d, state_neg = neg_d,
               state_external_pos = ext_pos_d, state_external_neg = ext_neg_d \<rparr>)] f t =
         (None, (reset t)
                  \<lparr> external_positive_descriptors := set_update [] EP,
                    external_negative_descriptors := set_update [] EN,
                    positive_descriptors := set_update [] P,
                    negative_descriptors := set_update [] N \<rparr>)"
proof -
  from assms(5) have f: "\<forall>d \<in> set P. reproduces f d" "\<forall>d \<in> set N. reproduces f d"
    "\<forall>d \<in> set EP. reproduces f d" "\<forall>d \<in> set EN. reproduces f d"
    by auto
  have "load_source f pos_d [] = (None, set_update [] P)"
    "load_source f neg_d [] = (None, set_update [] N)"
    "load_source f ext_pos_d [] = (None, set_update [] EP)"
    "load_source f ext_neg_d [] = (None, set_update [] EN)"
    using assms(1-4) f by (simp_all add: load_source_encodes)
  then show ?thesis
    by (simp add: set_state_bytes_def reset_def Let_def)
qed

text \<open>
  Claim C4. Let every descriptor of the four adjudication sets of \<open>s\<close> carry a
  vector and let the descriptor factory reproduce each of them. Then
  \<^verbatim>\<open>get_state_bytes\<close> returns bytes, and \<^verbatim>\<open>set_state_bytes\<close> of these bytes,
  in \<open>s\<close> itself or in any other session \<open>t\<close>, returns without raising and leaves
  a session whose four adjudication sets have the members of those of \<open>s\<close>, each
  with its key and vector, and whose working set, seeds used, results, feedback list,
  contributing sets and four cached views are empty.
\<close>

theorem state_bytes_round_trip:
  assumes "\<forall>d \<in> set (adjudicated_descriptors s). vector d \<noteq> None"
    and "\<forall>d \<in> set (adjudicated_descriptors s). reproduces f d"
  shows "\<exists>b t'. get_state_bytes s = Inr b \<and> set_state_bytes b f t = (None, t') \<and>
           set (positive_descriptors t') = set (positive_descriptors s) \<and>
           set (negative_descriptors t') = set (negative_descriptors s) \<and>
           set (external_positive_descriptors t') = set (external_positive_descriptors s) \<and>
           set (external_negative_descriptors t') = set (external_negative_descriptors s) \<and>
           working_set t' = [] \<and> wi_seeds_used t' = [] \<and>
           results t' = None \<and> feedback_list t' = None \<and>
           rank_contrib_pos t' = [] \<and> rank_contrib_pos_ext t' = [] \<and>
           rank_contrib_neg t' = [] \<and> rank_contrib_neg_ext t' = [] \<and>
           cached_ordered_results t' = None \<and> cached_ordered_pos t' = None \<and>
           cached_ordered_neg t' = None \<and> cached_ordered_non_adj t' = None"
proof -
  from get_state_bytes_encodes [OF assms(1)]
  obtain pos_d neg_d ext_pos_d ext_neg_d where
    b: "get_state_bytes s =
          Inr [(STATE_ZIP_FILENAME,
                \<lparr> state_pos = pos_d, state_neg = neg_d,
                  state_external_pos = ext_pos_d, state_external_neg = ext_neg_d \<rparr>)]"
    and enc: "encodes pos_d (positive_descriptors s)"
      "encodes neg_d (negative_descriptors s)"
      "encodes ext_pos_d (external_positive_descriptors s)"
      "encodes ext_neg_d (external_negative_descriptors s)"
    by blast
  from assms(2) have "\<forall>d \<in> set (positive_descriptors s) \<union> set (negative_descriptors s) \<union>
      set (external_positive_descriptors s) \<union> set (external_negative_descriptors s).
      reproduces f d"
    by (simp add: adjudicated_descriptors_def)
  from set_state_bytes_loaded [OF enc this, of t] b show ?thesis
    by (simp add: set_set_update reset_def)
qed

theorem state_bytes_round_trip_witness:
  "\<exists>b t'. get_state_bytes
             (external_descriptors [P1] [P2] (adjudicate [A] [B] [] [] example_session)) = Inr b \<and>
     set_state_bytes b (\<lambda>k. if k = 10 then A else \<lparr> uuid = k, vector = None \<rparr>)
       (external_descriptors [P1] [P2] (adjudicate [A] [B] [] [] example_session)) = (None, t') \<and>
     set (positive_descriptors t') = {A} \<and> set (negative_descriptors t') = {B} \<and>
     set (external_positive_descriptors t') = {P1} \<and>
     set (external_negative_descriptors t') = {P2} \<and>
     working_set t' = [] \<and> results t' = None \<and> cached_ordered_results t' = None"
proof -
  let ?s = "external_descriptors [P1] [P2] (adjudicate [A] [B] [] [] example_session)"
  let ?f = "\<lambda>k. if k = 10 then A else \<lparr> uuid = k, vector = None \<rparr>"
  have sets: "set (positive_descriptors ?s) = {A}" "set (negative_descriptors ?s) = {B}"
    "set (external_positive_descriptors ?s) = {P1}"
    "set (external_negative_descriptors ?s) = {P2}"
    by (simp_all add: external_descriptors_adjudicated external_descriptors_positive
          external_descriptors_negative adjudicate_positive adjudicate_negative
          adjudicate_external example_distinct example_session_def new_session_def)
  have 1: "\<forall>d \<in> set (adjudicated_descriptors ?s). vector d \<noteq> None"
    by (simp add: adjudicated_descriptors_def sets example_fields)
  have 2: "\<forall>d \<in> set (adjudicated_descriptors ?s). reproduces ?f d"
    by (simp add: adjudicated_descriptors_def sets example_fields reproduces_def)
  from state_bytes_round_trip [OF 1 2, of ?s] obtain b t' where
    "get_state_bytes ?s = Inr b" "set_state_bytes b ?f ?s = (None, t')"
    "set (positive_descriptors t') = set (positive_descriptors ?s)"
    "set (negative_descriptors t') = set (negative_descriptors ?s)"
    "set (external_positive_descriptors t') = set (external_positive_descriptors ?s)"
    "set (external_negative_descriptors t') = set (external_negative_descriptors ?s)"
    "working_set t' = []" "results t' = None" "cached_ordered_results t' = None"
    by blast
  with sets show ?thesis
    by (intro exI [of _ b] exI [of _ t']) simp
qed

end
